theory Spec2Isabelle
  imports Complex_Main "HOL-Library.Word"
begin

unbundle bit_operations_syntax

section \<open>Common data\<close>

text \<open>
  The Milcodec codec of \<^verbatim>\<open>src/Milcodec/milcodec_masker.py\<close> and
  \<^verbatim>\<open>src/Milcodec/milcodec_studio.py\<close>. Python \<^verbatim>\<open>bytes\<close> are lists of 8-bit
  words, Python integers that count or index are \<open>nat\<close>, the bits the codec handles are
  the Python integers 0 and 1 (\<open>nat\<close>), and numpy float arrays are lists of reals:
  the arithmetic on samples is exact, rounding is not modelled. Every exception the
  modelled code can raise is a value of \<open>error\<close>.
\<close>

type_synonym byte = "8 word"

datatype error =
    ValueError_ZeroSize     \<comment> \<open>\<^verbatim>\<open>ValueError\<close>: numpy's reduction of a zero-size array\<close>
  | ValueError_InvalidData  \<comment> \<open>\<^verbatim>\<open>ValueError("Invalid Milcodec encrypted data")\<close>\<close>
  | ZeroDivisionError
  | OverflowError
  | UnicodeEncodeError
  | UnicodeDecodeError      \<comment> \<open>in Python a subclass of \<^verbatim>\<open>ValueError\<close>\<close>

definition SAMPLE_RATE :: nat where
  "SAMPLE_RATE = 44100"

definition CARRIER_FREQ :: real where
  "CARRIER_FREQ = 12000"

text \<open>\<^verbatim>\<open>PNC_KEY = np.array([1, 1, ...], dtype=np.float32) * 2 - 1\<close>\<close>

definition PNC_KEY :: "real list" where
  "PNC_KEY = map (\<lambda>c. c * 2 - 1)
     [1, 1, 1, 1, 1, 0, 0, 0, 1, 1, 0, 1, 1, 1, 0, 1,
      0, 1, 0, 0, 0, 0, 1, 0, 0, 1, 0, 1, 1, 0, 0]"


text \<open>
  \<^verbatim>\<open>int(sample_rate * CHIP_DURATION)\<close> with \<^verbatim>\<open>CHIP_DURATION = 0.001\<close>: the integer part
  of a thousandth of the sample rate.
\<close>

definition samples_per_chip :: "nat \<Rightarrow> nat" where
  "samples_per_chip sample_rate = sample_rate div 1000"

subsection \<open>numpy helpers\<close>

text \<open>
  \<^verbatim>\<open>np.linspace(start, stop, num)\<close> (endpoint included): \<open>num\<close> evenly spaced points,
  the single point \<open>start\<close> when \<open>num = 1\<close>.
\<close>

definition linspace :: "real \<Rightarrow> real \<Rightarrow> nat \<Rightarrow> real list" where
  "linspace start stop num =
     (if num = 1 then [start]
      else map (\<lambda>k. start + real k * ((stop - start) / real (num - 1))) [0..<num])"

text \<open>\<^verbatim>\<open>np.sin(2 * np.pi * freq * t)\<close>, elementwise.\<close>

definition carrier_wave :: "real \<Rightarrow> real list \<Rightarrow> real list" where
  "carrier_wave freq t = map (\<lambda>x. sin (2 * pi * freq * x)) t"

text \<open>Elementwise product of two arrays of the same length.\<close>

definition np_mul :: "real list \<Rightarrow> real list \<Rightarrow> real list" where
  "np_mul xs ys = map2 (*) xs ys"

text \<open>
  \<^verbatim>\<open>np.mean\<close> of a non-empty array. Of an empty array numpy returns \<open>nan\<close> (with a
  warning, no exception); the callers below treat that case themselves.
\<close>

definition np_mean :: "real list \<Rightarrow> real" where
  "np_mean xs = sum_list xs / real (length xs)"

text \<open>
  \<^verbatim>\<open>np.max(np.abs(xs))\<close>: numpy raises \<^verbatim>\<open>ValueError\<close> on a zero-size array.
\<close>

definition max_abs :: "real list \<Rightarrow> error + real" where
  "max_abs xs = (case xs of [] \<Rightarrow> Inl ValueError_ZeroSize
                 | y # ys \<Rightarrow> Inr (fold (\<lambda>z m. max \<bar>z\<bar> m) ys \<bar>y\<bar>))"

section \<open>Bits and bytes\<close>

text \<open>
  \<^verbatim>\<open>for byte in data: for i in range(8): bits.append((byte >> (7 - i)) & 1)\<close>
\<close>

definition byte_bits :: "byte \<Rightarrow> nat list" where
  "byte_bits b = map (\<lambda>i. drop_bit (7 - i) (unat b) AND 1) [0..<8]"

definition bytes_to_bits :: "byte list \<Rightarrow> nat list" where
  "bytes_to_bits data = concat (map byte_bits data)"

text \<open>\<^verbatim>\<open>sum(b << (7 - j) for j, b in enumerate(byte_bits))\<close>\<close>

definition byte_val :: "nat list \<Rightarrow> nat" where
  "byte_val bits = sum_list (map (\<lambda>(j, b). push_bit (7 - j) b) (enumerate 0 bits))"

text \<open>
  \<^verbatim>\<open>for i in range(0, len(bits), 8): if i + 8 > len(bits): break; ...\<close>: whole groups
  of eight bits, most significant bit first; a trailing group of fewer than eight bits
  is dropped. The values are Python integers; \<open>byte_val_lt_256\<close> below shows that they
  fit a byte whenever the bits are 0 or 1.
\<close>

fun bits_to_byte_vals :: "nat list \<Rightarrow> nat list" where
  "bits_to_byte_vals bits =
     (if length bits < 8 then []
      else byte_val (take 8 bits) # bits_to_byte_vals (drop 8 bits))"

declare bits_to_byte_vals.simps [simp del]

text \<open>\<^verbatim>\<open>int.from_bytes(bs, 'big')\<close>\<close>

definition from_bytes_big :: "nat list \<Rightarrow> nat" where
  "from_bytes_big bs = foldl (\<lambda>acc b. acc * 256 + b) 0 bs"

text \<open>\<^verbatim>\<open>bytes(list_of_ints)\<close>, for integers in \<open>0..255\<close>.\<close>

definition py_bytes :: "nat list \<Rightarrow> byte list" where
  "py_bytes vs = map of_nat vs"

section \<open>Correlation receiver\<close>



section \<open>SteganographyEngine.extract_from_audio (milcodec_studio.py)\<close>


text \<open>
  Lines 274-290: bits to bytes, then the length prefix.
  \<^verbatim>\<open>if len(extracted_bytes) < 4: return b""\<close>, otherwise
  \<^verbatim>\<open>extracted_bytes[4:4 + message_length]\<close> (a Python slice: it stops at the end of
  the list).
\<close>

definition declared_length :: "nat list \<Rightarrow> nat" where
  "declared_length extracted_bytes = from_bytes_big (take 4 extracted_bytes)"

definition extract_message :: "nat list \<Rightarrow> byte list" where
  "extract_message extracted_bits =
     (let extracted_bytes = bits_to_byte_vals extracted_bits in
      if length extracted_bytes < 4 then []
      else let message_length = declared_length extracted_bytes in
           py_bytes (take message_length (drop 4 extracted_bytes)))"




section \<open>Framing, spreading, modulation\<close>

text \<open>
  \<^verbatim>\<open>len(message_bytes).to_bytes(4, 'big')\<close>: Python raises \<^verbatim>\<open>OverflowError\<close> when the
  length does not fit four bytes.
\<close>

definition to_bytes4_big :: "nat \<Rightarrow> error + byte list" where
  "to_bytes4_big n =
     (if n \<ge> 2 ^ 32 then Inl OverflowError
      else Inr (map (\<lambda>i. of_nat (n div 256 ^ (3 - i) mod 256)) [0..<4]))"

text \<open>
  \<^verbatim>\<open>for bit in bits: scalar = 1 if bit == 1 else -1; spread.extend(PNC_KEY * scalar)\<close>
\<close>

definition spread_bits :: "nat list \<Rightarrow> real list" where
  "spread_bits bits =
     concat (map (\<lambda>bit. let scalar = (if bit = 1 then 1 else - 1)
                         in map (\<lambda>c. c * scalar) PNC_KEY) bits)"

text \<open>\<^verbatim>\<open>np.repeat(xs, n)\<close>: every element \<open>n\<close> times in a row.\<close>

definition np_repeat :: "real list \<Rightarrow> nat \<Rightarrow> real list" where
  "np_repeat xs n = concat (map (replicate n) xs)"

text \<open>
  Upsampling and BPSK modulation, for a sample rate that is not 0:
  \<^verbatim>\<open>baseband = np.repeat(spread_signal, samples_per_chip)\<close>,
  \<^verbatim>\<open>t = np.linspace(0, len(baseband) / sample_rate, len(baseband))\<close>,
  \<^verbatim>\<open>baseband * np.sin(2 * np.pi * freq * t)\<close>.
\<close>

definition modulate_signal :: "real \<Rightarrow> nat \<Rightarrow> real list \<Rightarrow> real list" where
  "modulate_signal freq sample_rate spread_signal =
     (let baseband = np_repeat spread_signal (samples_per_chip sample_rate);
          t = linspace 0 (real (length baseband) / real sample_rate) (length baseband);
          carrier = carrier_wave freq t
      in np_mul baseband carrier)"

text \<open>
  \<^verbatim>\<open>output = carrier_audio.copy(); output[:len(modulated)] += modulated * amplitude\<close>,
  for \<open>modulated\<close> no longer than the carrier audio.
\<close>

definition add_scaled :: "real list \<Rightarrow> real list \<Rightarrow> real \<Rightarrow> real list" where
  "add_scaled carrier_audio modulated amplitude =
     map2 (\<lambda>c m. c + m * amplitude) (take (length modulated) carrier_audio) modulated
       @ drop (length modulated) carrier_audio"

text \<open>
  \<^verbatim>\<open>if len(modulated) > len(carrier_audio): modulated = modulated[:len(carrier_audio)]\<close>
\<close>

definition fit_to_carrier :: "real list \<Rightarrow> real list \<Rightarrow> real list" where
  "fit_to_carrier modulated carrier_audio =
     (if length modulated > length carrier_audio
      then take (length carrier_audio) modulated else modulated)"

text \<open>
  \<^verbatim>\<open>max_val = np.max(np.abs(output)); if max_val > 1.0: output = output / max_val * 0.99\<close>
\<close>

definition clip_normalize :: "real list \<Rightarrow> error + real list" where
  "clip_normalize output =
     (case max_abs output of
        Inl e \<Rightarrow> Inl e
      | Inr max_val \<Rightarrow>
          Inr (if max_val > 1 then map (\<lambda>x. x / max_val * 0.99) output else output))"

section \<open>SteganographyEngine.embed_in_audio (milcodec_studio.py)\<close>


definition DEFAULT_SNR :: real where
  "DEFAULT_SNR = - 20"

text \<open>Lines 173-199: length header, bits, spreading, modulation on the 12 kHz carrier.\<close>

definition studio_modulated :: "byte list \<Rightarrow> nat \<Rightarrow> error + real list" where
  "studio_modulated message_bytes sample_rate =
     (case to_bytes4_big (length message_bytes) of
        Inl e \<Rightarrow> Inl e
      | Inr length_bytes \<Rightarrow>
          let full_message = length_bytes @ message_bytes;
              bits = bytes_to_bits full_message;
              spread_signal = spread_bits bits
          in if sample_rate = 0 then Inl ZeroDivisionError
             else Inr (modulate_signal 12000 sample_rate spread_signal))"

text \<open>
  Lines 201-205: \<^verbatim>\<open>snr_linear = 10 ** (self.snr_db / 10)\<close>,
  \<^verbatim>\<open>signal_amplitude = np.sqrt(snr_linear) * 0.5\<close>.
\<close>

definition studio_signal_amplitude :: "real \<Rightarrow> real" where
  "studio_signal_amplitude snr_db = sqrt (10 powr (snr_db / 10)) * 0.5"

definition studio_embed_in_audio ::
  "real \<Rightarrow> real list \<Rightarrow> byte list \<Rightarrow> nat \<Rightarrow> error + real list" where
  "studio_embed_in_audio snr_db carrier_audio message_bytes sample_rate =
     (case studio_modulated message_bytes sample_rate of
        Inl e \<Rightarrow> Inl e
      | Inr modulated \<Rightarrow>
          let signal_amplitude = studio_signal_amplitude snr_db;
              modulated = fit_to_carrier modulated carrier_audio;
              output = add_scaled carrier_audio modulated signal_amplitude
          in clip_normalize output)"

section \<open>DSSSMasker (milcodec_masker.py)\<close>

text \<open>
  The masker object: its target SNR (clamped by the constructor and by \<^verbatim>\<open>set_snr\<close>)
  and its carrier frequency. Its \<^verbatim>\<open>sample_rate\<close> attribute is set to \<open>SAMPLE_RATE\<close> by
  the constructor and never assigned again, so the methods below use the constant.
\<close>

record masker =
  snr_db :: real
  carrier_freq :: real

definition DSSSMasker :: "real \<Rightarrow> real \<Rightarrow> masker" where
  "DSSSMasker snr freq = \<lparr>snr_db = max (- 30) (min (- 10) snr), carrier_freq = freq\<rparr>"

definition masker_modulate_signal :: "masker \<Rightarrow> real list \<Rightarrow> real list" where
  "masker_modulate_signal self spread_signal =
     modulate_signal (carrier_freq self) SAMPLE_RATE spread_signal"

text \<open>
  \<^verbatim>\<open>_apply_noise_masking\<close>. The Gaussian draw \<^verbatim>\<open>np.random.normal(0, noise_std, n)\<close>
  is \<open>noise_std\<close> times \<open>n\<close> standard normal draws; the draws are a parameter
  (\<open>draws k\<close> is the \<open>k\<close>-th one). Of an empty \<open>modulated\<close> the power is \<open>nan\<close> in numpy;
  noise and sum are then empty whatever its value, and \<^verbatim>\<open>np.max\<close> raises.
\<close>

definition apply_noise_masking ::
  "masker \<Rightarrow> (nat \<Rightarrow> real) \<Rightarrow> real list \<Rightarrow> error + real list" where
  "apply_noise_masking self draws modulated =
     (let sig_power = np_mean (map (\<lambda>x. x * x) modulated);
          sig_power = (if sig_power = 0 then 1 / 10 ^ 9 else sig_power);
          snr_linear = 10 powr (snr_db self / 10);
          noise_power = sig_power / snr_linear;
          noise_std = sqrt noise_power;
          noise = map (\<lambda>k. noise_std * draws k) [0..<length modulated];
          masked = map2 (+) modulated noise
      in case max_abs masked of
           Inl e \<Rightarrow> Inl e
         | Inr max_val \<Rightarrow>
             Inr (if max_val > 0 then map (\<lambda>x. x / max_val * 0.95) masked else masked))"

definition generate_masked_audio ::
  "masker \<Rightarrow> (nat \<Rightarrow> real) \<Rightarrow> byte list \<Rightarrow> error + real list" where
  "generate_masked_audio self draws payload_bytes =
     (let bits = bytes_to_bits payload_bytes;
          spread_signal = spread_bits bits;
          modulated = masker_modulate_signal self spread_signal
      in apply_noise_masking self draws modulated)"

text \<open>
  Lines 112-115 of \<^verbatim>\<open>generate_with_carrier\<close>:
  \<^verbatim>\<open>np.sqrt(np.mean(carrier_audio ** 2) * 10 ** (self.snr_db / 10))\<close>.
\<close>

definition masker_signal_amplitude :: "masker \<Rightarrow> real list \<Rightarrow> real" where
  "masker_signal_amplitude self carrier_audio =
     (let carrier_power = np_mean (map (\<lambda>x. x * x) carrier_audio);
          snr_linear = 10 powr (snr_db self / 10)
      in sqrt (carrier_power * snr_linear))"

definition generate_with_carrier ::
  "masker \<Rightarrow> byte list \<Rightarrow> real list \<Rightarrow> error + real list" where
  "generate_with_carrier self payload_bytes carrier_audio =
     (let bits = bytes_to_bits payload_bytes;
          spread_signal = spread_bits bits;
          modulated = masker_modulate_signal self spread_signal;
          signal_amplitude = masker_signal_amplitude self carrier_audio;
          modulated = fit_to_carrier modulated carrier_audio;
          output = add_scaled carrier_audio modulated signal_amplitude
      in clip_normalize output)"





section \<open>CryptoHelper (milcodec_studio.py)\<close>

subsection \<open>Python strings and UTF-8\<close>

text \<open>
  A Python \<^verbatim>\<open>str\<close> is a list of code points. \<^verbatim>\<open>s.encode('utf-8')\<close> raises
  \<^verbatim>\<open>UnicodeEncodeError\<close> on a surrogate (\<open>0xD800..0xDFFF\<close>); numbers from \<open>0x110000\<close>
  on are not code points of any Python string, and the model refuses them the same way.
\<close>

type_synonym py_str = "nat list"

definition utf8_char :: "nat \<Rightarrow> nat list option" where
  "utf8_char c =
     (if c < 0x80 then Some [c]
      else if c < 0x800 then Some [0xC0 + c div 64, 0x80 + c mod 64]
      else if 0xD800 \<le> c \<and> c \<le> 0xDFFF then None
      else if c < 0x10000 then
        Some [0xE0 + c div 4096, 0x80 + c div 64 mod 64, 0x80 + c mod 64]
      else if c < 0x110000 then
        Some [0xF0 + c div 262144, 0x80 + c div 4096 mod 64, 0x80 + c div 64 mod 64,
              0x80 + c mod 64]
      else None)"

fun utf8_encode_vals :: "py_str \<Rightarrow> nat list option" where
  "utf8_encode_vals [] = Some []"
| "utf8_encode_vals (c # cs) =
     (case utf8_char c of
        None \<Rightarrow> None
      | Some bs \<Rightarrow>
          (case utf8_encode_vals cs of None \<Rightarrow> None | Some rest \<Rightarrow> Some (bs @ rest)))"

definition str_encode :: "py_str \<Rightarrow> error + byte list" where
  "str_encode s =
     (case utf8_encode_vals s of
        None \<Rightarrow> Inl UnicodeEncodeError
      | Some vs \<Rightarrow> Inr (py_bytes vs))"

text \<open>
  \<^verbatim>\<open>bs.decode('utf-8')\<close>, strict: a stray or missing continuation byte, an overlong
  form, a surrogate or a value past \<open>0x10FFFF\<close> raises \<^verbatim>\<open>UnicodeDecodeError\<close>.
\<close>

definition continuation :: "nat \<Rightarrow> bool" where
  "continuation b = (0x80 \<le> b \<and> b < 0xC0)"

definition decoded :: "nat \<Rightarrow> py_str option \<Rightarrow> py_str option" where
  "decoded c rest = (case rest of None \<Rightarrow> None | Some cs \<Rightarrow> Some (c # cs))"

fun utf8_decode_vals :: "nat list \<Rightarrow> py_str option" where
  "utf8_decode_vals [] = Some []"
| "utf8_decode_vals (b0 # bs) =
     (if b0 < 0x80 then decoded b0 (utf8_decode_vals bs)
      else if 0xC2 \<le> b0 \<and> b0 < 0xE0 then
        (case bs of
           b1 # r \<Rightarrow>
             if continuation b1
             then decoded ((b0 - 0xC0) * 64 + (b1 - 0x80)) (utf8_decode_vals r)
             else None
         | _ \<Rightarrow> None)
      else if 0xE0 \<le> b0 \<and> b0 < 0xF0 then
        (case bs of
           b1 # b2 # r \<Rightarrow>
             let c = (b0 - 0xE0) * 4096 + (b1 - 0x80) * 64 + (b2 - 0x80) in
             if continuation b1 \<and> continuation b2 \<and> 0x800 \<le> c
                \<and> \<not> (0xD800 \<le> c \<and> c \<le> 0xDFFF)
             then decoded c (utf8_decode_vals r)
             else None
         | _ \<Rightarrow> None)
      else if 0xF0 \<le> b0 \<and> b0 < 0xF5 then
        (case bs of
           b1 # b2 # b3 # r \<Rightarrow>
             let c = (b0 - 0xF0) * 262144 + (b1 - 0x80) * 4096 + (b2 - 0x80) * 64
                     + (b3 - 0x80) in
             if continuation b1 \<and> continuation b2 \<and> continuation b3
                \<and> 0x10000 \<le> c \<and> c < 0x110000
             then decoded c (utf8_decode_vals r)
             else None
         | _ \<Rightarrow> None)
      else None)"

definition str_decode :: "byte list \<Rightarrow> error + py_str" where
  "str_decode bs =
     (case utf8_decode_vals (map unat bs) of
        None \<Rightarrow> Inl UnicodeDecodeError
      | Some s \<Rightarrow> Inr s)"

subsection \<open>The library and the random source\<close>

text \<open>
  The \<^verbatim>\<open>cryptography\<close> package is not part of the repository; what the code uses of it
  is a parameter of the model: whether the import succeeded (\<^verbatim>\<open>CRYPTO_AVAILABLE\<close>),
  \<^verbatim>\<open>PBKDF2HMAC(...).derive\<close> as a function from the password bytes and the salt to the
  key, and the ChaCha20 cipher as its keystream, a function from key, nonce and position
  to a byte, which \<^verbatim>\<open>update\<close> XORs onto the data. \<^verbatim>\<open>os.urandom\<close> is a stream of
  bytes: encrypt draws the 16 bytes of the salt first and the 12 of the nonce next.
\<close>

record crypto_backend =
  CRYPTO_AVAILABLE :: bool
  PBKDF2HMAC :: "byte list \<Rightarrow> byte list \<Rightarrow> byte list"
  ChaCha20 :: "byte list \<Rightarrow> byte list \<Rightarrow> nat \<Rightarrow> byte"

definition MAGIC_HEADER :: "byte list" where
  "MAGIC_HEADER = map (\<lambda>c. of_nat (of_char c)) ''MILCODEC_V2''"

text \<open>
  \<^verbatim>\<open>derive_key\<close> for a given salt. The fallback key is
  \<^verbatim>\<open>(password * 32)[:32].encode('utf-8')\<close>.
\<close>

definition derive_key :: "crypto_backend \<Rightarrow> py_str \<Rightarrow> byte list \<Rightarrow> error + byte list" where
  "derive_key lib password salt =
     (if \<not> CRYPTO_AVAILABLE lib
      then str_encode (take 32 (concat (replicate 32 password)))
      else case str_encode password of
             Inl e \<Rightarrow> Inl e
           | Inr pw \<Rightarrow> Inr (PBKDF2HMAC lib pw salt))"

text \<open>
  The fallback cipher, \<^verbatim>\<open>bytes([b ^ key[i % len(key)] for i, b in enumerate(data)])\<close>:
  with an empty key and data to process, \<^verbatim>\<open>i % len(key)\<close> raises.
\<close>

definition xor_fallback :: "byte list \<Rightarrow> byte list \<Rightarrow> error + byte list" where
  "xor_fallback key data =
     (if data \<noteq> [] \<and> key = [] then Inl ZeroDivisionError
      else Inr (map (\<lambda>(i, b). b XOR key ! (i mod length key)) (enumerate 0 data)))"

text \<open>\<^verbatim>\<open>encryptor.update(data)\<close> and \<^verbatim>\<open>decryptor.update(data)\<close> of the stream cipher.\<close>

definition chacha20_update :: "(nat \<Rightarrow> byte) \<Rightarrow> byte list \<Rightarrow> byte list" where
  "chacha20_update keystream data = map (\<lambda>(i, b). b XOR keystream i) (enumerate 0 data)"

subsection \<open>encrypt and decrypt\<close>

definition encrypt ::
  "crypto_backend \<Rightarrow> (nat \<Rightarrow> byte) \<Rightarrow> py_str \<Rightarrow> py_str \<Rightarrow> error + byte list" where
  "encrypt lib urandom plaintext password =
     (let salt = map urandom [0..<16] in
      case derive_key lib password salt of
        Inl e \<Rightarrow> Inl e
      | Inr key \<Rightarrow>
          let nonce = map urandom [16..<28] in
          if \<not> CRYPTO_AVAILABLE lib then
            (case str_encode plaintext of
               Inl e \<Rightarrow> Inl e
             | Inr data \<Rightarrow>
                 (case xor_fallback key data of
                    Inl e \<Rightarrow> Inl e
                  | Inr encrypted \<Rightarrow> Inr (MAGIC_HEADER @ salt @ nonce @ encrypted)))
          else
            (case str_encode plaintext of
               Inl e \<Rightarrow> Inl e
             | Inr data \<Rightarrow>
                 Inr (MAGIC_HEADER @ salt @ nonce
                        @ chacha20_update (ChaCha20 lib key nonce) data)))"

text \<open>\<^verbatim>\<open>encrypted.startswith(MAGIC_HEADER)\<close>\<close>

definition startswith :: "byte list \<Rightarrow> byte list \<Rightarrow> bool" where
  "startswith bs prefix = (take (length prefix) bs = prefix)"

definition decrypt :: "crypto_backend \<Rightarrow> byte list \<Rightarrow> py_str \<Rightarrow> error + py_str" where
  "decrypt lib encrypted password =
     (if \<not> startswith encrypted MAGIC_HEADER then Inl ValueError_InvalidData
      else
        let data = drop (length MAGIC_HEADER) encrypted;
            salt = take 16 data;
            nonce = take 12 (drop 16 data);
            ciphertext = drop 28 data
        in case derive_key lib password salt of
             Inl e \<Rightarrow> Inl e
           | Inr key \<Rightarrow>
               if \<not> CRYPTO_AVAILABLE lib then
                 (case xor_fallback key ciphertext of
                    Inl e \<Rightarrow> Inl e
                  | Inr decrypted \<Rightarrow> str_decode decrypted)
               else str_decode (chacha20_update (ChaCha20 lib key nonce) ciphertext))"

section \<open>Facts about bits and bytes\<close>

lemma length_bits_to_byte_vals: "length (bits_to_byte_vals bits) = length bits div 8"
proof (induction bits rule: bits_to_byte_vals.induct)
  case (1 bits)
  show ?case
  proof (cases "length bits < 8")
    case True
    then show ?thesis by (simp add: bits_to_byte_vals.simps [of bits])
  next
    case False
    then have "length (bits_to_byte_vals bits) = Suc (length (drop 8 bits) div 8)"
      using 1 by (simp add: bits_to_byte_vals.simps [of bits])
    also have "\<dots> = length bits div 8"
      using False by simp
    finally show ?thesis .
  qed
qed


lemma byte_val_8: "byte_val [a,b,c,d,e,f,g,h] = a*128 + b*64 + c*32 + d*16 + e*8 + f*4 + g*2 + h"
  by (simp add: byte_val_def push_bit_eq_mult)

lemma byte_bits_eq: "byte_bits b = [unat b div 128 mod 2, unat b div 64 mod 2, unat b div 32 mod 2, unat b div 16 mod 2,
   unat b div 8 mod 2, unat b div 4 mod 2, unat b div 2 mod 2, unat b mod 2]"
  by (simp add: byte_bits_def upt_rec and_one_eq drop_bit_eq_div)

lemma bits_linear:
  fixes n :: nat
  assumes "n = 2 * a1 + b0" "a1 = 2 * a2 + b1" "a2 = 2 * a3 + b2" "a3 = 2 * a4 + b3"
    "a4 = 2 * a5 + b4" "a5 = 2 * a6 + b5" "a6 = 2 * b7 + b6"
  shows "b7 * 128 + b6 * 64 + b5 * 32 + b4 * 16 + b3 * 8 + b2 * 4 + b1 * 2 + b0 = n"
  using assms by simp

lemma halve: "(m::nat) = 2 * (m div 2) + m mod 2"
  by simp

lemma nat_bits:
  fixes n :: nat
  assumes "n < 256"
  shows "(n div 128 mod 2) * 128 + (n div 64 mod 2) * 64 + (n div 32 mod 2) * 32
       + (n div 16 mod 2) * 16 + (n div 8 mod 2) * 8 + (n div 4 mod 2) * 4
       + (n div 2 mod 2) * 2 + n mod 2 = n"
proof -
  have d: "n div 2 div 2 = n div 4" "n div 4 div 2 = n div 8" "n div 8 div 2 = n div 16"
    "n div 16 div 2 = n div 32" "n div 32 div 2 = n div 64" "n div 64 div 2 = n div 128"
    by (simp_all add: div_mult2_eq [symmetric])
  have top: "n div 128 mod 2 = n div 128"
    using assms by simp
  show ?thesis
    unfolding top
    by (rule bits_linear [OF halve [of n] halve [of "n div 2", unfolded d]
          halve [of "n div 4", unfolded d] halve [of "n div 8", unfolded d]
          halve [of "n div 16", unfolded d] halve [of "n div 32", unfolded d]
          halve [of "n div 64", unfolded d]])
qed

lemma byte_val_byte_bits: "byte_val (byte_bits b) = unat b"
proof -
  have "unat b < 256" using unsigned_less [of b] by simp
  then show ?thesis unfolding byte_bits_eq byte_val_8 by (rule nat_bits)
qed

lemma drop_bits_to_byte_vals:
  "drop k (bits_to_byte_vals bits) = bits_to_byte_vals (drop (8 * k) bits)"
proof (induction k arbitrary: bits)
  case 0
  then show ?case by simp
next
  case (Suc k)
  show ?case
  proof (cases "length bits < 8")
    case True
    then show ?thesis
      by (simp add: bits_to_byte_vals.simps [of bits] bits_to_byte_vals.simps [of "[]"])
  next
    case False
    have "drop (Suc k) (bits_to_byte_vals bits) = drop k (bits_to_byte_vals (drop 8 bits))"
      using False by (simp add: bits_to_byte_vals.simps [of bits])
    also have "\<dots> = bits_to_byte_vals (drop (8 * k) (drop 8 bits))"
      by (rule Suc.IH)
    also have "drop (8 * k) (drop 8 bits) = drop (8 * Suc k) bits"
      by (simp add: add.commute)
    finally show ?thesis .
  qed
qed

lemma take_bits_to_byte_vals:
  "8 * k \<le> length bits \<Longrightarrow> take k (bits_to_byte_vals bits) = bits_to_byte_vals (take (8 * k) bits)"
proof (induction k arbitrary: bits)
  case 0
  then show ?case by (simp add: bits_to_byte_vals.simps [of "[]"])
next
  case (Suc k)
  from Suc.prems have len: "\<not> length bits < 8" and rest: "8 * k \<le> length (drop 8 bits)"
    by simp_all
  have "take (Suc k) (bits_to_byte_vals bits)
          = byte_val (take 8 bits) # take k (bits_to_byte_vals (drop 8 bits))"
    using len by (simp add: bits_to_byte_vals.simps [of bits])
  also have "take k (bits_to_byte_vals (drop 8 bits))
          = bits_to_byte_vals (take (8 * k) (drop 8 bits))"
    using rest by (rule Suc.IH)
  also have "byte_val (take 8 bits) # bits_to_byte_vals (take (8 * k) (drop 8 bits))
          = bits_to_byte_vals (take (8 * Suc k) bits)"
    using len Suc.prems
    by (simp add: bits_to_byte_vals.simps [of "take (8 + 8 * k) bits"] min_def take_drop add.commute)
  finally show ?case .
qed

lemma extract_message_short:
  assumes "length bits < 32"
  shows "extract_message bits = []"
proof -
  have "length bits div 8 < 4" using assms by simp
  then show ?thesis
    by (simp add: extract_message_def length_bits_to_byte_vals Let_def)
qed

lemma extract_message_long:
  assumes "32 \<le> length bits"
  shows "extract_message bits =
           py_bytes (take (from_bytes_big (bits_to_byte_vals (take 32 bits)))
                          (bits_to_byte_vals (drop 32 bits)))"
proof -
  have "\<not> length (bits_to_byte_vals bits) < 4"
    using assms by (simp add: length_bits_to_byte_vals)
  moreover have "take 4 (bits_to_byte_vals bits) = bits_to_byte_vals (take 32 bits)"
    using assms take_bits_to_byte_vals [of 4 bits] by simp
  moreover have "drop 4 (bits_to_byte_vals bits) = bits_to_byte_vals (drop 32 bits)"
    using drop_bits_to_byte_vals [of 4 bits] by simp
  ultimately show ?thesis
    by (simp add: extract_message_def declared_length_def)
qed



section \<open>Facts about mixing and normalisation\<close>

lemma max_abs_eq_Max: "xs \<noteq> [] \<Longrightarrow> max_abs xs = Inr (Max (abs ` set xs))"
proof (cases xs)
  case Nil
  then show "xs \<noteq> [] \<Longrightarrow> ?thesis" by simp
next
  case (Cons y ys)
  have "fold (\<lambda>z m. max \<bar>z\<bar> m) ys \<bar>y\<bar> = fold max (map abs ys) \<bar>y\<bar>"
    by (simp add: fold_map comp_def)
  also have "\<dots> = Max (set (map abs (y # ys)))"
    using Max.set_eq_fold [of "\<bar>y\<bar>" "map abs ys"] by simp
  finally show ?thesis using Cons by (simp add: max_abs_def)
qed

lemma max_abs_Nil: "max_abs [] = Inl ValueError_ZeroSize"
  by (simp add: max_abs_def)


lemma length_add_scaled:
  "length modulated \<le> length carrier_audio \<Longrightarrow>
   length (add_scaled carrier_audio modulated amplitude) = length carrier_audio"
  by (simp add: add_scaled_def)

lemma nth_add_scaled_beyond:
  assumes "length modulated \<le> i" and "i < length carrier_audio"
  shows "add_scaled carrier_audio modulated amplitude ! i = carrier_audio ! i"
  using assms by (simp add: add_scaled_def nth_append)


lemma clip_normalize_nonempty:
  assumes "output \<noteq> []"
  shows "clip_normalize output =
     Inr (if Max (abs ` set output) > 1
          then map (\<lambda>x. x / Max (abs ` set output) * 0.99) output else output)"
  using assms by (simp add: clip_normalize_def max_abs_eq_Max)

lemma embed_beyond:
  assumes "length modulated \<le> i" and "i < length carrier_audio"
  shows "\<exists>max_val output.
           max_abs (add_scaled carrier_audio modulated amplitude) = Inr max_val \<and>
           clip_normalize (add_scaled carrier_audio (fit_to_carrier modulated carrier_audio) amplitude)
             = Inr output \<and>
           length output = length carrier_audio \<and>
           output ! i = (if max_val > 1 then carrier_audio ! i / max_val * 0.99
                         else carrier_audio ! i)"
proof -
  let ?mixed = "add_scaled carrier_audio modulated amplitude"
  have fit: "fit_to_carrier modulated carrier_audio = modulated"
    using assms by (simp add: fit_to_carrier_def)
  have len: "length ?mixed = length carrier_audio"
    using assms by (simp add: length_add_scaled)
  then have ne: "?mixed \<noteq> []" using assms by auto
  have nth: "?mixed ! i = carrier_audio ! i"
    using assms by (rule nth_add_scaled_beyond)
  show ?thesis
    using len nth assms(2)
    by (simp add: fit clip_normalize_nonempty [OF ne] max_abs_eq_Max [OF ne])
qed

lemma masker_modulate_Nil: "masker_modulate_signal self [] = []"
  by (simp add: masker_modulate_signal_def modulate_signal_def np_repeat_def linspace_def
      carrier_wave_def np_mul_def)

lemma embedded_output_exists:
  "\<exists>max_val output. A max_val \<and> r = Inr output \<and> L output \<and> N max_val output \<Longrightarrow>
   \<exists>output. r = Inr output \<and> L output"
  by blast



section \<open>Facts about UTF-8\<close>

lemma decoded_Some: "decoded c (Some cs) = Some (c # cs)"
  by (simp add: decoded_def)

lemma decode_1: 
  assumes "c < 0x80"
  shows "utf8_decode_vals ([c] @ rest) = decoded c (utf8_decode_vals rest)"
  using assms by simp

lemma decode_2:
  assumes "0x80 \<le> c" and "c < 0x800"
  shows "utf8_decode_vals ([0xC0 + c div 64, 0x80 + c mod 64] @ rest)
           = decoded c (utf8_decode_vals rest)"
proof -
  have a: "2 \<le> c div 64" using assms(1) by (simp add: less_eq_div_iff_mult_less_eq)
  have b: "c div 64 < 32" using assms(2) by (simp add: div_less_iff_less_mult)
  have v: "c div 64 * 64 + c mod 64 = c" by simp
  have m: "c mod 64 < 64" by simp
  show ?thesis using a b v m by (simp add: continuation_def)
qed

lemma split3: "(c::nat) div 4096 * 4096 + c div 64 mod 64 * 64 + c mod 64 = c"
proof -
  have "c mod (64 * 64) = 64 * (c div 64 mod 64) + c mod 64" by (rule mod_mult2_eq)
  then have "c mod 4096 = c div 64 mod 64 * 64 + c mod 64" by simp
  moreover have "c div 4096 * 4096 + c mod 4096 = c" by simp
  ultimately show ?thesis by simp
qed

lemma split4:
  "(c::nat) div 262144 * 262144 + c div 4096 mod 64 * 4096 + c div 64 mod 64 * 64 + c mod 64 = c"
proof -
  have "c mod (4096 * 64) = 4096 * (c div 4096 mod 64) + c mod 4096" by (rule mod_mult2_eq)
  then have a: "c mod 262144 = c div 4096 mod 64 * 4096 + c mod 4096" by simp
  have "c mod (64 * 64) = 64 * (c div 64 mod 64) + c mod 64" by (rule mod_mult2_eq)
  then have b: "c mod 4096 = c div 64 mod 64 * 64 + c mod 64" by simp
  have "c div 262144 * 262144 + c mod 262144 = c" by simp
  with a b show ?thesis by simp
qed

lemma decode_3:
  assumes "0x800 \<le> c" and "c < 0x10000" and "\<not> (0xD800 \<le> c \<and> c \<le> 0xDFFF)"
  shows "utf8_decode_vals ([0xE0 + c div 4096, 0x80 + c div 64 mod 64, 0x80 + c mod 64] @ rest)
           = decoded c (utf8_decode_vals rest)"
proof -
  have b: "c div 4096 < 16" using assms(2) by (simp add: div_less_iff_less_mult)
  have m: "c mod 64 < 64" "c div 64 mod 64 < 64" by simp_all
  have v: "c div 4096 * 4096 + c div 64 mod 64 * 64 + c mod 64 = c" by (rule split3)
  show ?thesis using assms b m by (simp add: continuation_def v)
qed

lemma decode_4:
  assumes "0x10000 \<le> c" and "c < 0x110000"
  shows "utf8_decode_vals ([0xF0 + c div 262144, 0x80 + c div 4096 mod 64,
            0x80 + c div 64 mod 64, 0x80 + c mod 64] @ rest)
           = decoded c (utf8_decode_vals rest)"
proof -
  have b: "c div 262144 < 5" using assms(2) by (simp add: div_less_iff_less_mult)
  have m: "c mod 64 < 64" "c div 64 mod 64 < 64" "c div 4096 mod 64 < 64" by simp_all
  have v: "c div 262144 * 262144 + c div 4096 mod 64 * 4096 + c div 64 mod 64 * 64 + c mod 64 = c"
    by (rule split4)
  show ?thesis using assms b m by (simp add: continuation_def v)
qed

lemma utf8_char_decode:
  assumes "utf8_char c = Some bs"
  shows "utf8_decode_vals (bs @ rest) = decoded c (utf8_decode_vals rest)"
proof -
  consider (one) "c < 0x80" | (two) "0x80 \<le> c" "c < 0x800"
    | (three) "0x800 \<le> c" "c < 0x10000" "\<not> (0xD800 \<le> c \<and> c \<le> 0xDFFF)"
    | (four) "0x10000 \<le> c" "c < 0x110000"
    | (bad) "(0xD800 \<le> c \<and> c \<le> 0xDFFF) \<or> 0x110000 \<le> c"
    by linarith
  then show ?thesis
  proof cases
    case one
    then have "bs = [c]" using assms by (simp add: utf8_char_def)
    then show ?thesis using decode_1 [OF one] by simp
  next
    case two
    then have "bs = [0xC0 + c div 64, 0x80 + c mod 64]"
      using assms by (simp add: utf8_char_def)
    then show ?thesis using decode_2 [OF two] by simp
  next
    case three
    then have "bs = [0xE0 + c div 4096, 0x80 + c div 64 mod 64, 0x80 + c mod 64]"
      using assms by (auto simp: utf8_char_def split: if_splits)
    then show ?thesis using decode_3 [OF three] by simp
  next
    case four
    then have "bs = [0xF0 + c div 262144, 0x80 + c div 4096 mod 64,
            0x80 + c div 64 mod 64, 0x80 + c mod 64]"
      using assms by (simp add: utf8_char_def)
    then show ?thesis using decode_4 [OF four] by simp
  next
    case bad
    then have "utf8_char c = None"
      by (auto simp: utf8_char_def)
    then show ?thesis using assms by simp
  qed
qed

lemma utf8_char_vals:
  assumes "utf8_char c = Some bs"
  shows "(\<forall>b\<in>set bs. b < 256) \<and> bs \<noteq> []"
proof -
  have "c < 0x110000 \<Longrightarrow> c div 262144 < 5" by (simp add: div_less_iff_less_mult)
  moreover have "c < 0x10000 \<Longrightarrow> c div 4096 < 16" by (simp add: div_less_iff_less_mult)
  moreover have "c < 0x800 \<Longrightarrow> c div 64 < 32" by (simp add: div_less_iff_less_mult)
  moreover have "c mod 64 < 64" "c div 64 mod 64 < 64" "c div 4096 mod 64 < 64" by simp_all
  ultimately show ?thesis
    using assms by (auto simp: utf8_char_def split: if_splits)
qed

lemma utf8_encode_vals_lt:
  "utf8_encode_vals s = Some vs \<Longrightarrow> \<forall>b\<in>set vs. b < 256"
proof (induction s arbitrary: vs)
  case Nil
  then show ?case by simp
next
  case (Cons c cs)
  then obtain bs rest where c: "utf8_char c = Some bs" and r: "utf8_encode_vals cs = Some rest"
    and vs: "vs = bs @ rest"
    by (auto split: option.splits)
  show ?case using utf8_char_vals [OF c] Cons.IH [OF r] vs by auto
qed

lemma utf8_roundtrip_vals:
  "utf8_encode_vals s = Some vs \<Longrightarrow> utf8_decode_vals vs = Some s"
proof (induction s arbitrary: vs)
  case Nil
  then show ?case by simp
next
  case (Cons c cs)
  then obtain bs rest where c: "utf8_char c = Some bs" and r: "utf8_encode_vals cs = Some rest"
    and vs: "vs = bs @ rest"
    by (auto split: option.splits)
  show ?case
    unfolding vs utf8_char_decode [OF c] Cons.IH [OF r] by (rule decoded_Some)
qed

lemma map_unat_py_bytes: "\<forall>b\<in>set vs. b < 256 \<Longrightarrow> map unat (py_bytes vs) = vs"
  by (induction vs) (simp_all add: py_bytes_def unat_of_nat)

lemma str_encode_error: "str_encode s = Inl e \<Longrightarrow> e = UnicodeEncodeError"
  by (auto simp: str_encode_def split: option.splits)

lemma str_decode_error: "str_decode bs = Inl e \<Longrightarrow> e = UnicodeDecodeError"
  by (auto simp: str_decode_def split: option.splits)

lemma str_roundtrip:
  assumes "str_encode s = Inr data"
  shows "str_decode data = Inr s"
proof -
  from assms obtain vs where vs: "utf8_encode_vals s = Some vs" and data: "data = py_bytes vs"
    by (auto simp: str_encode_def split: option.splits)
  have "map unat data = vs"
    unfolding data using utf8_encode_vals_lt [OF vs] by (rule map_unat_py_bytes)
  then show ?thesis
    using utf8_roundtrip_vals [OF vs] by (simp add: str_decode_def)
qed

section \<open>Facts about the cipher and the sealed format\<close>

lemma length_MAGIC_HEADER: "length MAGIC_HEADER = 11"
  by (simp add: MAGIC_HEADER_def)

lemma length_xor_fallback: "xor_fallback key data = Inr ct \<Longrightarrow> length ct = length data"
  by (auto simp: xor_fallback_def split: if_splits)

lemma xor_fallback_involution:
  assumes "xor_fallback key data = Inr ct"
  shows "xor_fallback key ct = Inr data"
proof -
  have ct: "ct = map (\<lambda>(i, b). b XOR key ! (i mod length key)) (enumerate 0 data)"
    and ok: "data = [] \<or> key \<noteq> []"
    using assms by (auto simp: xor_fallback_def split: if_splits)
  have len: "length ct = length data" using ct by simp
  have "map (\<lambda>(i, b). b XOR key ! (i mod length key)) (enumerate 0 ct) = data"
    by (rule nth_equalityI) (simp_all add: len ct nth_enumerate_eq xor.assoc)
  moreover have "ct = [] \<or> key \<noteq> []" using ok len by auto
  ultimately show ?thesis by (auto simp: xor_fallback_def)
qed

lemma length_chacha20_update: "length (chacha20_update keystream data) = length data"
  by (simp add: chacha20_update_def)

lemma chacha20_update_involution:
  "chacha20_update keystream (chacha20_update keystream data) = data"
  by (rule nth_equalityI) (simp_all add: chacha20_update_def nth_enumerate_eq xor.assoc)

lemma xor_fallback_Nil: "xor_fallback key [] = Inr []"
  by (simp add: xor_fallback_def)

lemma chacha20_update_Nil: "chacha20_update keystream [] = []"
  by (simp add: chacha20_update_def)

lemma str_encode_Nil: "str_encode [] = Inr []"
  by (simp add: str_encode_def py_bytes_def)

lemma str_decode_Nil: "str_decode [] = Inr []"
  by (simp add: str_decode_def)

lemma str_encode_Inr_Nil: "str_encode [] = Inr data \<Longrightarrow> data = []"
  by (simp add: str_encode_Nil)

text \<open>What decrypt does with a blob of the sealed format.\<close>

lemma decrypt_sealed:
  assumes "length salt = 16" and "length nonce = 12"
  shows "decrypt lib (MAGIC_HEADER @ salt @ nonce @ ciphertext) password =
     (case derive_key lib password salt of
        Inl e \<Rightarrow> Inl e
      | Inr key \<Rightarrow>
          if \<not> CRYPTO_AVAILABLE lib then
            (case xor_fallback key ciphertext of
               Inl e \<Rightarrow> Inl e
             | Inr decrypted \<Rightarrow> str_decode decrypted)
          else str_decode (chacha20_update (ChaCha20 lib key nonce) ciphertext))"
proof -
  have head: "startswith (MAGIC_HEADER @ salt @ nonce @ ciphertext) MAGIC_HEADER"
    by (simp add: startswith_def)
  have rest: "drop (length MAGIC_HEADER) (MAGIC_HEADER @ salt @ nonce @ ciphertext)
                = salt @ nonce @ ciphertext"
    by simp
  have parts: "take 16 (salt @ nonce @ ciphertext) = salt"
    "take 12 (drop 16 (salt @ nonce @ ciphertext)) = nonce"
    "drop 28 (salt @ nonce @ ciphertext) = ciphertext"
    using assms by simp_all
  show ?thesis
    unfolding decrypt_def Let_def rest parts using head by simp
qed

text \<open>What encrypt returns, when it returns.\<close>

lemma encrypt_Inr:
  assumes "encrypt lib urandom plaintext password = Inr blob"
  shows "\<exists>key data ciphertext.
           derive_key lib password (map urandom [0..<16]) = Inr key \<and>
           str_encode plaintext = Inr data \<and>
           (if \<not> CRYPTO_AVAILABLE lib then xor_fallback key data = Inr ciphertext
            else ciphertext = chacha20_update (ChaCha20 lib key (map urandom [16..<28])) data) \<and>
           blob = MAGIC_HEADER @ map urandom [0..<16] @ map urandom [16..<28] @ ciphertext"
  using assms by (auto simp: encrypt_def Let_def split: sum.splits if_splits)

section \<open>The extractor on short and truncated input\<close>

text \<open>
  C5 (as the code has it). With fewer than 32 bits the extractor returns the empty byte
  string. With at least 32 bits, the first 32 bits are the declared length \<open>N\<close>, and the
  result is the first \<open>N\<close> of the whole bytes that follow the header: when fewer than
  \<open>N * 8\<close> bits remain, that is the payload cut short to the whole bytes available,
  and not the empty string. The result never holds more bytes than the bits after the
  header make up.
\<close>

theorem extract_message_short_or_truncated:
  "(length bits < 32 \<longrightarrow> extract_message bits = []) \<and>
   (32 \<le> length bits \<longrightarrow>
      extract_message bits =
        py_bytes (take (from_bytes_big (bits_to_byte_vals (take 32 bits)))
                       (bits_to_byte_vals (drop 32 bits))) \<and>
      length (extract_message bits) =
        min (from_bytes_big (bits_to_byte_vals (take 32 bits))) ((length bits - 32) div 8))"
proof (intro conjI impI)
  assume "length bits < 32"
  then show "extract_message bits = []" by (rule extract_message_short)
next
  assume long: "32 \<le> length bits"
  then show eq: "extract_message bits =
        py_bytes (take (from_bytes_big (bits_to_byte_vals (take 32 bits)))
                       (bits_to_byte_vals (drop 32 bits)))"
    by (rule extract_message_long)
  show "length (extract_message bits) =
        min (from_bytes_big (bits_to_byte_vals (take 32 bits))) ((length bits - 32) div 8)"
    unfolding eq by (simp add: py_bytes_def length_bits_to_byte_vals min.commute)
qed

text \<open>
  The theorem at two inputs: no bits at all, and a header declaring one byte followed
  by the eight bits of 0x41 and three more bits, which are ignored.
\<close>

theorem extract_message_short_or_truncated_witness:
  "length ([] :: nat list) < 32 \<and> extract_message [] = [] \<and>
   32 \<le> length (replicate 31 0 @ [1, 0, 1, 0, 0, 0, 0, 0, 1, 1, 1, 1 :: nat]) \<and>
   extract_message (replicate 31 0 @ [1, 0, 1, 0, 0, 0, 0, 0, 1, 1, 1, 1]) = [65]"
proof -
  let ?B = "replicate 31 0 @ [1, 0, 1, 0, 0, 0, 0, 0, 1, 1, 1, 1 :: nat]"
  have a: "length ([] :: nat list) < 32" by simp
  have b: "32 \<le> length ?B" by simp
  note short = extract_message_short_or_truncated [of "[]", THEN conjunct1, rule_format, OF a]
  note long = extract_message_short_or_truncated [of ?B, THEN conjunct2, rule_format, OF b]
  have ev: "py_bytes (take (from_bytes_big (bits_to_byte_vals (take 32 ?B)))
                           (bits_to_byte_vals (drop 32 ?B))) = [65]"
    by code_simp
  from long ev have "extract_message ?B = [65]" by simp
  with a b short show ?thesis by simp
qed

text \<open>
  C5 as stated fails: a header declaring two bytes followed by only eight bits
  (fewer than \<open>2 * 8\<close>) yields the one whole byte 0x41, not the empty string.
\<close>

theorem extract_message_partial_counterexample:
  "declared_length (bits_to_byte_vals
      (replicate 30 0 @ [1, 0] @ [0, 1, 0, 0, 0, 0, 0, 1])) = 2 \<and>
   length (drop 32 (replicate 30 0 @ [1, 0] @ [0, 1, 0, 0, 0, 0, 0, 1 :: nat])) < 2 * 8 \<and>
   extract_message (replicate 30 0 @ [1, 0] @ [0, 1, 0, 0, 0, 0, 0, 1]) = [65]"
  by code_simp

section \<open>Carrier audio beyond the embedded region\<close>

text \<open>
  C7 (as the code has it). In both carrier-embedding functions, for a carrier audio
  longer than the modulated message, an output sample at an index at or past the length
  of the modulated signal equals the carrier sample whenever the peak magnitude of the
  mixed signal is at most 1; when the peak exceeds 1, the clip normalisation divides
  the whole output by the peak and multiplies it by 0.99, that sample included.
\<close>

theorem carrier_beyond_embedded_region:
  "(studio_modulated message_bytes sample_rate = Inr modulated \<longrightarrow>
      length modulated \<le> i \<longrightarrow> i < length carrier_audio \<longrightarrow>
      (\<exists>max_val output.
         max_abs (add_scaled carrier_audio modulated (studio_signal_amplitude snr)) = Inr max_val \<and>
         studio_embed_in_audio snr carrier_audio message_bytes sample_rate = Inr output \<and>
         length output = length carrier_audio \<and>
         output ! i = (if max_val > 1 then carrier_audio ! i / max_val * 0.99
                       else carrier_audio ! i))) \<and>
   (length (masker_modulate_signal self (spread_bits (bytes_to_bits payload_bytes))) \<le> j \<longrightarrow>
      j < length carrier_audio \<longrightarrow>
      (\<exists>max_val output.
         max_abs (add_scaled carrier_audio
                    (masker_modulate_signal self (spread_bits (bytes_to_bits payload_bytes)))
                    (masker_signal_amplitude self carrier_audio)) = Inr max_val \<and>
         generate_with_carrier self payload_bytes carrier_audio = Inr output \<and>
         length output = length carrier_audio \<and>
         output ! j = (if max_val > 1 then carrier_audio ! j / max_val * 0.99
                       else carrier_audio ! j)))"
proof (intro conjI impI)
  assume m: "studio_modulated message_bytes sample_rate = Inr modulated"
    and "length modulated \<le> i" "i < length carrier_audio"
  from embed_beyond [OF this(2,3), of "studio_signal_amplitude snr"] m
  show "\<exists>max_val output.
         max_abs (add_scaled carrier_audio modulated (studio_signal_amplitude snr)) = Inr max_val \<and>
         studio_embed_in_audio snr carrier_audio message_bytes sample_rate = Inr output \<and>
         length output = length carrier_audio \<and>
         output ! i = (if max_val > 1 then carrier_audio ! i / max_val * 0.99
                       else carrier_audio ! i)"
    by (simp add: studio_embed_in_audio_def)
next
  assume "length (masker_modulate_signal self (spread_bits (bytes_to_bits payload_bytes))) \<le> j"
    "j < length carrier_audio"
  from embed_beyond [OF this, of "masker_signal_amplitude self carrier_audio"]
  show "\<exists>max_val output.
         max_abs (add_scaled carrier_audio
                    (masker_modulate_signal self (spread_bits (bytes_to_bits payload_bytes)))
                    (masker_signal_amplitude self carrier_audio)) = Inr max_val \<and>
         generate_with_carrier self payload_bytes carrier_audio = Inr output \<and>
         length output = length carrier_audio \<and>
         output ! j = (if max_val > 1 then carrier_audio ! j / max_val * 0.99
                       else carrier_audio ! j)"
    by (simp add: generate_with_carrier_def)
qed

text \<open>
  The theorem at the empty message, for the studio with a silent carrier one sample
  longer than the modulated header and for the masker with a one-sample carrier.
\<close>

theorem carrier_beyond_embedded_region_witness:
  "studio_modulated [] 44100 = Inr (modulate_signal 12000 44100 (spread_bits (bytes_to_bits [0, 0, 0, 0]))) \<and>
   length (modulate_signal 12000 44100 (spread_bits (bytes_to_bits [0, 0, 0, 0]))) \<le> length (modulate_signal 12000 44100 (spread_bits (bytes_to_bits [0, 0, 0, 0]))) \<and>
   length (modulate_signal 12000 44100 (spread_bits (bytes_to_bits [0, 0, 0, 0]))) < length (replicate (length (modulate_signal 12000 44100 (spread_bits (bytes_to_bits [0, 0, 0, 0])))) (0::real) @ [1 / 2]) \<and>
   (\<exists>output. studio_embed_in_audio (- 20) (replicate (length (modulate_signal 12000 44100 (spread_bits (bytes_to_bits [0, 0, 0, 0])))) (0::real) @ [1 / 2]) [] 44100 = Inr output \<and>
       length output = length (replicate (length (modulate_signal 12000 44100 (spread_bits (bytes_to_bits [0, 0, 0, 0])))) (0::real) @ [1 / 2])) \<and>
   length (masker_modulate_signal (DSSSMasker (- 20) 12000) (spread_bits (bytes_to_bits []))) \<le> 0 \<and>
   (0::nat) < length [1 / 2 :: real] \<and>
   (\<exists>output. generate_with_carrier (DSSSMasker (- 20) 12000) [] [1 / 2] = Inr output \<and>
       length output = length [1 / 2 :: real])"
proof -
  have m: "studio_modulated [] 44100 = Inr (modulate_signal 12000 44100 (spread_bits (bytes_to_bits [0, 0, 0, 0])))"
    by (simp add: studio_modulated_def to_bytes4_big_def upt_rec)
  have len: "length (modulate_signal 12000 44100 (spread_bits (bytes_to_bits [0, 0, 0, 0]))) < length (replicate (length (modulate_signal 12000 44100 (spread_bits (bytes_to_bits [0, 0, 0, 0])))) (0::real) @ [1 / 2])"
    by simp
  have e: "length (masker_modulate_signal (DSSSMasker (- 20) 12000)
              (spread_bits (bytes_to_bits []))) \<le> 0"
    by (simp add: bytes_to_bits_def spread_bits_def masker_modulate_Nil)
  have z: "(0::nat) < length [1 / 2 :: real]"
    by simp
  note studio = carrier_beyond_embedded_region [of "[]" 44100 "(modulate_signal 12000 44100 (spread_bits (bytes_to_bits [0, 0, 0, 0])))" "length (modulate_signal 12000 44100 (spread_bits (bytes_to_bits [0, 0, 0, 0])))" "(replicate (length (modulate_signal 12000 44100 (spread_bits (bytes_to_bits [0, 0, 0, 0])))) (0::real) @ [1 / 2])" "- 20",
      THEN conjunct1, rule_format, OF m order_refl len]
  note mask = carrier_beyond_embedded_region [of _ _ _ _ "[1 / 2]" _ "DSSSMasker (- 20) 12000" "[]" 0,
      THEN conjunct2, rule_format, OF e z]
  show ?thesis
    by (intro conjI m order_refl len e z embedded_output_exists [OF studio]
        embedded_output_exists [OF mask])
qed

text \<open>
  C7 as stated fails: with the empty payload the masker's modulated signal is empty, so
  index 0 lies beyond the embedded region, and the carrier sample \<open>-32768 / 32767\<close> (the
  lowest 16-bit sample as the command line loads it) comes out as \<open>-0.99\<close>.
\<close>

theorem carrier_rescaled_counterexample:
  "length (masker_modulate_signal (DSSSMasker (- 20) 12000) (spread_bits (bytes_to_bits []))) \<le> 0 \<and>
   (0::nat) < length [- 32768 / 32767 :: real] \<and>
   generate_with_carrier (DSSSMasker (- 20) 12000) [] [- 32768 / 32767] = Inr [- 99 / 100]"
  by (simp add: generate_with_carrier_def bytes_to_bits_def spread_bits_def masker_modulate_Nil
      fit_to_carrier_def add_scaled_def clip_normalize_def max_abs_def)

section \<open>The empty payload in pure-noise masking\<close>

text \<open>
  C8. \<^verbatim>\<open>DSSSMasker.generate_masked_audio\<close> does not accept the empty payload: the
  modulated signal is empty, and \<^verbatim>\<open>np.max(np.abs(masked))\<close> in
  \<^verbatim>\<open>_apply_noise_masking\<close> raises \<^verbatim>\<open>ValueError\<close> on the empty array, whatever the
  masker's settings and the noise drawn.
\<close>

theorem generate_masked_audio_empty_payload:
  "generate_masked_audio self draws [] = Inl ValueError_ZeroSize"
  by (simp add: generate_masked_audio_def bytes_to_bits_def spread_bits_def masker_modulate_Nil
      apply_noise_masking_def max_abs_Nil)

section \<open>The amplitude of the embedded signal\<close>




section \<open>The decode-size cap\<close>


end
